theory Spec2Isabelle
  imports Main "HOL-Library.Word"
begin

section \<open>The layout system of ui.h\<close>

text \<open>
  A shallow embedding of the declarations and inline member functions of
  \<^verbatim>\<open>crawl-ref/source/ui.h\<close>. Only what the header itself defines is embedded
  from code: the constructors, \<^verbatim>\<open>Slot\<close>, the margin setters, \<^verbatim>\<open>UIStack::get_child\<close>,
  \<^verbatim>\<open>UIGrid::track_flex_grow\<close> and \<^verbatim>\<open>UIGrid::get_tracks_region\<close>. The macro
  \<^verbatim>\<open>ASSERT\<close> and \<^verbatim>\<open>UIStack::add_child\<close>, which the header uses or declares without
  defining them, follow the spec and are marked so.
\<close>

subsection \<open>Machine integers, vectors and failures\<close>

text \<open>
  A C++ \<^verbatim>\<open>int\<close> is a 32-bit word: \<open>+\<close> and \<open>-\<close> wrap, and the signed reading
  \<open>sint\<close> is used wherever the source compares.
\<close>

type_synonym cint = "32 word"

text \<open>
  A pointer (\<^verbatim>\<open>Target*\<close>, \<^verbatim>\<open>shared_ptr<UI>\<close>) is the address it holds; the
  multimap of \<^verbatim>\<open>Slot\<close> orders its keys by address.
\<close>

type_synonym addr = nat

datatype error = AssertFailed | OutOfBounds

text \<open>
  \<^verbatim>\<open>std::vector::operator[]\<close> takes a \<^verbatim>\<open>size_t\<close> and checks nothing. A read
  at or beyond \<^verbatim>\<open>size()\<close> has no defined result in C++; the model returns \<open>None\<close>
  there instead of a value.
\<close>

definition vector_at :: "'a list \<Rightarrow> nat \<Rightarrow> 'a option" where
  "vector_at v idx = (if idx < length v then Some (v ! idx) else None)"

text \<open>
  Indexing a vector with an \<^verbatim>\<open>int\<close> converts the index to \<^verbatim>\<open>size_t\<close>: a negative
  \<^verbatim>\<open>int\<close> becomes a value of at least \<open>2 ^ 63\<close>, beyond the size of any vector.
\<close>

definition vector_at_int :: "'a list \<Rightarrow> cint \<Rightarrow> 'a option" where
  "vector_at_int v i = (if sint i < 0 then None else vector_at v (nat (sint i)))"

subsection \<open>Geometry primitives and enumerations\<close>

text \<open>\<^verbatim>\<open>struct i4 { int xyzw[4]; }\<close> and \<^verbatim>\<open>struct i2 { int xy[2]; }\<close>.\<close>

datatype i4 = I4 cint cint cint cint

datatype i2 = I2 cint cint

text \<open>\<^verbatim>\<open>struct UISizeReq { int min, nat; }\<close>; the field names are prefixed.\<close>

record UISizeReq =
  sr_min :: cint
  sr_nat :: cint

datatype UIAlign_type =
  UI_ALIGN_UNSET | UI_ALIGN_START | UI_ALIGN_END | UI_ALIGN_CENTER | UI_ALIGN_STRETCH

datatype UIJustify_type =
  UI_JUSTIFY_START | UI_JUSTIFY_CENTER | UI_JUSTIFY_END

subsection \<open>The base widget\<close>

text \<open>
  The data members of \<^verbatim>\<open>class UI\<close>. The two-element arrays \<^verbatim>\<open>cached_sr_valid[2]\<close>
  and \<^verbatim>\<open>cached_sr[2]\<close> are pairs (index 0 first); \<^verbatim>\<open>cached_sr_pw\<close> is the one
  \<^verbatim>\<open>int\<close> the header declares.
\<close>

record UI =
  margin :: i4
  flex_grow :: cint
  align_self :: UIAlign_type
  expand_h :: bool
  expand_v :: bool
  m_region :: i4
  cached_sr_valid :: "bool \<times> bool"
  cached_sr :: "UISizeReq \<times> UISizeReq"
  cached_sr_pw :: cint

text \<open>
  \<^verbatim>\<open>UI() : margin({0,0,0,0}), flex_grow(1), align_self(UI_ALIGN_UNSET), expand_h(false),
  expand_v(false), cached_sr_valid{false, false} {}\<close>

  A constructor runs on raw storage. The members it names are initialised;
  \<^verbatim>\<open>m_region\<close> is default-constructed by \<^verbatim>\<open>i4()\<close>, whose empty pack zero-fills
  \<^verbatim>\<open>xyzw\<close>; \<^verbatim>\<open>cached_sr\<close> and \<^verbatim>\<open>cached_sr_pw\<close> keep whatever the storage held.
  The function works on every extension of the record, so that the derived classes'
  constructors can run it first.
\<close>

definition UI_ctor :: "'a UI_scheme \<Rightarrow> 'a UI_scheme" where
  "UI_ctor raw = raw\<lparr>margin := I4 0 0 0 0, flex_grow := 1, align_self := UI_ALIGN_UNSET,
     expand_h := False, expand_v := False, m_region := I4 0 0 0 0,
     cached_sr_valid := (False, False)\<rparr>"

text \<open>
  \<^verbatim>\<open>set_margin_for_crt\<close> and \<^verbatim>\<open>set_margin_for_sdl\<close>. The preprocessor symbol
  \<^verbatim>\<open>USE_TILE_LOCAL\<close> is fixed per build; it is the first argument.
\<close>

definition set_margin_for_crt :: "bool \<Rightarrow> i4 \<Rightarrow> 'a UI_scheme \<Rightarrow> 'a UI_scheme" where
  "set_margin_for_crt USE_TILE_LOCAL mrg this =
     (if \<not> USE_TILE_LOCAL then this\<lparr>margin := mrg\<rparr> else this)"

definition set_margin_for_sdl :: "bool \<Rightarrow> i4 \<Rightarrow> 'a UI_scheme \<Rightarrow> 'a UI_scheme" where
  "set_margin_for_sdl USE_TILE_LOCAL mrg this =
     (if USE_TILE_LOCAL then this\<lparr>margin := mrg\<rparr> else this)"

subsection \<open>Vector-backed containers, Box and Stack\<close>

text \<open>
  \<^verbatim>\<open>class UIContainerVec\<close> adds \<^verbatim>\<open>vector<shared_ptr<UI>> m_children\<close>, which a
  compiler-generated constructor leaves empty.
\<close>

record UIContainerVec = UI +
  m_children :: "addr list"

definition UIContainerVec_ctor :: "'a UIContainerVec_scheme \<Rightarrow> 'a UIContainerVec_scheme" where
  "UIContainerVec_ctor raw = (UI_ctor raw)\<lparr>m_children := []\<rparr>"

record UIBox = UIContainerVec +
  horz :: bool
  justify_items :: UIJustify_type
  align_items :: UIAlign_type

text \<open>
  \<^verbatim>\<open>UIBox() : horz(false), justify_items(UI_JUSTIFY_START), align_items(UI_ALIGN_UNSET)
  { expand_h = expand_v = true; }\<close>: the base constructors, the member initialisers,
  then the body.
\<close>

definition UIBox_ctor :: "'a UIBox_scheme \<Rightarrow> 'a UIBox_scheme" where
  "UIBox_ctor raw = (UIContainerVec_ctor raw)\<lparr>horz := False,
     justify_items := UI_JUSTIFY_START, align_items := UI_ALIGN_UNSET,
     expand_v := True, expand_h := True\<rparr>"





subsection \<open>Grid\<close>

text \<open>
  \<^verbatim>\<open>struct track_info { int size; int offset; UISizeReq sr; int flex_grow; }\<close>;
  \<^verbatim>\<open>size\<close> and \<^verbatim>\<open>flex_grow\<close> carry a suffix, the first being a constant of HOL and
  the second a field of the widget.
\<close>

record track_info =
  size_ti :: cint
  offset :: cint
  sr :: UISizeReq
  flex_grow_ti :: cint

record child_info =
  pos :: i2
  span :: i2
  widget :: addr

record UIGrid = UI +
  m_col_info :: "track_info list"
  m_row_info :: "track_info list"
  m_child_info :: "child_info list"
  m_track_info_dirty :: bool

text \<open>
  Modelled from the spec: the macro \<^verbatim>\<open>ASSERT\<close>, which ui.h uses and does not define.
  The spec calls a violated contract a fatal assertion failure, not recoverable at
  runtime: the call ends there with \<open>AssertFailed\<close>.
\<close>

definition ASSERT :: "bool \<Rightarrow> error + unit" where
  "ASSERT p = (if p then Inr () else Inl AssertFailed)"

text \<open>
  \<^verbatim>\<open>track_flex_grow\<close> returns an \<^verbatim>\<open>int&\<close>: the \<^verbatim>\<open>flex_grow\<close> member of one element
  of \<^verbatim>\<open>m_col_info\<close> or of \<^verbatim>\<open>m_row_info\<close>.
\<close>

datatype track_ref = Col_flex_grow nat | Row_flex_grow nat

text \<open>
  \<^verbatim>\<open>int& track_flex_grow(int x, int y)
  {
      init_track_info();
      ASSERT(x == -1 || y == -1);
      return (x >= 0 ? m_col_info[x].flex_grow : m_row_info[y].flex_grow);
  }\<close>

  \<^verbatim>\<open>init_track_info\<close> is declared in the header and defined elsewhere; it is the
  first argument, a function on the grid. The result is the grid after
  \<^verbatim>\<open>init_track_info\<close>, the member referred to and the weight stored there.
\<close>

definition track_flex_grow ::
  "(UIGrid \<Rightarrow> UIGrid) \<Rightarrow> UIGrid \<Rightarrow> cint \<Rightarrow> cint \<Rightarrow> error + (UIGrid \<times> track_ref \<times> cint)" where
  "track_flex_grow init_track_info this x y =
     (let this' = init_track_info this in
      case ASSERT (x = - 1 \<or> y = - 1) of
        Inl e \<Rightarrow> Inl e
      | Inr _ \<Rightarrow>
          if 0 \<le> sint x then
            (case vector_at_int (m_col_info this') x of
               None \<Rightarrow> Inl OutOfBounds
             | Some t \<Rightarrow> Inr (this', Col_flex_grow (nat (sint x)), flex_grow_ti t))
          else
            (case vector_at_int (m_row_info this') y of
               None \<Rightarrow> Inl OutOfBounds
             | Some t \<Rightarrow> Inr (this', Row_flex_grow (nat (sint y)), flex_grow_ti t)))"

text \<open>
  \<^verbatim>\<open>i4 get_tracks_region(int x, int y, int w, int h) const
  {
      return {
          m_col_info[x].offset, m_row_info[y].offset,
          m_col_info[x+w-1].size + m_col_info[x+w-1].offset - m_col_info[x].offset,
          m_row_info[y+h-1].size + m_row_info[y+h-1].offset - m_row_info[y].offset,
      };
  }\<close>

  Four elements are read; the region exists when all four reads are in range.
\<close>

definition get_tracks_region :: "UIGrid \<Rightarrow> cint \<Rightarrow> cint \<Rightarrow> cint \<Rightarrow> cint \<Rightarrow> i4 option" where
  "get_tracks_region this x y w h =
     (case (vector_at_int (m_col_info this) x, vector_at_int (m_row_info this) y,
            vector_at_int (m_col_info this) (x + w - 1),
            vector_at_int (m_row_info this) (y + h - 1)) of
        (Some cx, Some ry, Some cxw, Some ryh) \<Rightarrow>
          Some (I4 (offset cx) (offset ry)
                   (size_ti cxw + offset cxw - offset cx)
                   (size_ti ryh + offset ryh - offset ry))
      | _ \<Rightarrow> None)"

text \<open>
  The invariant of the tracks: each track starts where the one before it ends,
  \<^verbatim>\<open>offset[i+1] == offset[i] + size[i]\<close> for every valid \<open>i\<close>.
\<close>

definition tracks_contiguous :: "track_info list \<Rightarrow> bool" where
  "tracks_contiguous ts =
     (\<forall>i. Suc i < length ts \<longrightarrow> offset (ts ! Suc i) = offset (ts ! i) + size_ti (ts ! i))"

text \<open>The sum of the sizes of the \<open>n\<close> tracks from index \<open>i\<close> on.\<close>

definition span_size :: "track_info list \<Rightarrow> nat \<Rightarrow> nat \<Rightarrow> cint" where
  "span_size ts i n = sum_list (map size_ti (take n (drop i ts)))"

subsection \<open>Slot\<close>

text \<open>
  A handler is a \<^verbatim>\<open>function<bool (Args...)>\<close>. It sees the event and may change the
  program's state \<open>'s\<close>; it returns whether it consumed the event, with the state it
  leaves. The handler map itself is not part of \<open>'s\<close>: a handler that registers or
  removes handlers while \<^verbatim>\<open>emit\<close> iterates is outside this model.
\<close>

type_synonym ('e, 's) HandlerSig = "'e \<Rightarrow> 's \<Rightarrow> bool \<times> 's"

text \<open>
  \<^verbatim>\<open>std::multimap<Target*, HandlerSig>\<close> is the list of its entries in iteration
  order: ascending keys, entries of equal keys in the order of their insertion.
\<close>

type_synonym ('e, 's) HandlerMap = "(addr \<times> ('e, 's) HandlerSig) list"

text \<open>
  \<^verbatim>\<open>insert\<close> puts the new entry at the upper bound of its key, before the first entry
  of a greater key. \<^verbatim>\<open>equal_range\<close> is the run of entries from the first whose key is
  not less than the key to the first whose key is greater. \<^verbatim>\<open>erase(key)\<close> removes that
  run.
\<close>

fun multimap_insert :: "addr \<times> 'h \<Rightarrow> (addr \<times> 'h) list \<Rightarrow> (addr \<times> 'h) list" where
  "multimap_insert new_pair [] = [new_pair]"
| "multimap_insert new_pair (p # m) =
     (if fst new_pair < fst p then new_pair # p # m else p # multimap_insert new_pair m)"

fun equal_range :: "(addr \<times> 'h) list \<Rightarrow> addr \<Rightarrow> (addr \<times> 'h) list" where
  "equal_range [] k = []"
| "equal_range (p # m) k =
     (if fst p < k then equal_range m k
      else if k < fst p then []
      else p # equal_range m k)"

fun multimap_erase :: "(addr \<times> 'h) list \<Rightarrow> addr \<Rightarrow> (addr \<times> 'h) list" where
  "multimap_erase [] k = []"
| "multimap_erase (p # m) k =
     (if fst p < k then p # multimap_erase m k
      else if k < fst p then p # m
      else multimap_erase m k)"

text \<open>The representation invariant of the multimap: its keys ascend.\<close>

definition multimap_inv :: "(addr \<times> 'h) list \<Rightarrow> bool" where
  "multimap_inv m = sorted (map fst m)"

record ('e, 's) Slot =
  handlers :: "('e, 's) HandlerMap"

text \<open>
  The loop of \<^verbatim>\<open>emit\<close> over the range \<^verbatim>\<open>[i.first, i.second)\<close>:
  \<^verbatim>\<open>HandlerSig func = it->second; if (func(forward<Args>(args)...)) return true;\<close>
  and \<^verbatim>\<open>return false\<close> after the last entry.
\<close>

fun emit_loop :: "(addr \<times> ('e, 's) HandlerSig) list \<Rightarrow> 'e \<Rightarrow> 's \<Rightarrow> bool \<times> 's" where
  "emit_loop [] args s = (False, s)"
| "emit_loop (it # rest) args s =
     (let func = snd it; (consumed, s') = func args s
      in if consumed then (True, s') else emit_loop rest args s')"

definition emit :: "('e, 's) Slot \<Rightarrow> addr \<Rightarrow> 'e \<Rightarrow> 's \<Rightarrow> bool \<times> 's" where
  "emit slot target args s = emit_loop (equal_range (handlers slot) target) args s"

definition on :: "('e, 's) Slot \<Rightarrow> addr \<Rightarrow> ('e, 's) HandlerSig \<Rightarrow> ('e, 's) Slot" where
  "on slot target handler =
     (let new_pair = (target, handler)
      in slot\<lparr>handlers := multimap_insert new_pair (handlers slot)\<rparr>)"

definition remove_by_target :: "('e, 's) Slot \<Rightarrow> addr \<Rightarrow> ('e, 's) Slot" where
  "remove_by_target slot target = slot\<lparr>handlers := multimap_erase (handlers slot) target\<rparr>"

text \<open>
  \<^verbatim>\<open>static struct slots { Slot<UI, bool (wm_event)> event; } slots;\<close> is the one
  process-wide registry. The destructor
  \<^verbatim>\<open>~UI() { UI::slots.event.remove_by_target(this); }\<close> acts on it; \<open>this\<close> is the
  address of the widget destroyed.
\<close>

record ('e, 's) slots =
  event :: "('e, 's) Slot"

definition UI_dtor :: "addr \<Rightarrow> ('e, 's) slots \<Rightarrow> ('e, 's) slots" where
  "UI_dtor this sl = sl\<lparr>event := remove_by_target (event sl) this\<rparr>"

text \<open>
  A run of registrations on a registry that starts empty, one call of \<^verbatim>\<open>on\<close> for
  each pair of the list, first to last.
\<close>

definition register_all :: "(addr \<times> ('e, 's) HandlerSig) list \<Rightarrow> ('e, 's) Slot" where
  "register_all regs = foldl (\<lambda>slot r. on slot (fst r) (snd r)) \<lparr>handlers = []\<rparr> regs"

text \<open>
  The handlers registered against \<open>target\<close> by such a run, in registration order.
\<close>

definition registered_for ::
  "(addr \<times> ('e, 's) HandlerSig) list \<Rightarrow> addr \<Rightarrow> ('e, 's) HandlerSig list" where
  "registered_for regs target = map snd (filter (\<lambda>r. fst r = target) regs)"

text \<open>
  The state once the first \<open>n\<close> handlers of a list have each been invoked once, in
  the order of the list, and what the handler at position \<open>n\<close> answers when invoked
  next.
\<close>

definition after_handlers :: "('e, 's) HandlerSig list \<Rightarrow> 'e \<Rightarrow> 's \<Rightarrow> nat \<Rightarrow> 's" where
  "after_handlers hs args s n = foldl (\<lambda>s' h. snd (h args s')) s (take n hs)"

definition answer :: "('e, 's) HandlerSig list \<Rightarrow> 'e \<Rightarrow> 's \<Rightarrow> nat \<Rightarrow> bool" where
  "answer hs args s n = fst ((hs ! n) args (after_handlers hs args s n))"

subsection \<open>Concrete instances\<close>

text \<open>A grid of three columns and two rows whose tracks are contiguous.\<close>

definition example_grid :: UIGrid where
  "example_grid = UI_ctor \<lparr>margin = I4 0 0 0 0, flex_grow = 0, align_self = UI_ALIGN_UNSET,
     expand_h = False, expand_v = False, m_region = I4 0 0 0 0,
     cached_sr_valid = (False, False),
     cached_sr = (\<lparr>sr_min = 0, sr_nat = 0\<rparr>, \<lparr>sr_min = 0, sr_nat = 0\<rparr>), cached_sr_pw = 0,
     m_col_info = [\<lparr>size_ti = 10, offset = 0, sr = \<lparr>sr_min = 0, sr_nat = 10\<rparr>, flex_grow_ti = 1\<rparr>,
                   \<lparr>size_ti = 20, offset = 10, sr = \<lparr>sr_min = 0, sr_nat = 20\<rparr>, flex_grow_ti = 0\<rparr>,
                   \<lparr>size_ti = 30, offset = 30, sr = \<lparr>sr_min = 0, sr_nat = 30\<rparr>, flex_grow_ti = 2\<rparr>],
     m_row_info = [\<lparr>size_ti = 5, offset = 0, sr = \<lparr>sr_min = 0, sr_nat = 5\<rparr>, flex_grow_ti = 1\<rparr>,
                   \<lparr>size_ti = 7, offset = 5, sr = \<lparr>sr_min = 0, sr_nat = 7\<rparr>, flex_grow_ti = 3\<rparr>],
     m_child_info = [\<lparr>pos = I2 1 0, span = I2 2 2, widget = 4096\<rparr>],
     m_track_info_dirty = False\<rparr>"


text \<open>
  A handler that appends its tag to a log, the state, and answers \<open>consumes\<close>; and a
  registration sequence of four such handlers on the widgets at addresses 1 and 2.
\<close>

definition logging_handler :: "nat \<Rightarrow> bool \<Rightarrow> (unit, nat list) HandlerSig" where
  "logging_handler tag consumes = (\<lambda>args log. (consumes, log @ [tag]))"

definition example_regs :: "(addr \<times> (unit, nat list) HandlerSig) list" where
  "example_regs = [(2, logging_handler 20 True), (1, logging_handler 10 False),
                   (1, logging_handler 11 True), (1, logging_handler 12 True)]"

section \<open>Properties\<close>

subsection \<open>Constructors and margin setters\<close>

text \<open>
  C7. Whatever the storage held, a newly constructed base widget has margin
  (0,0,0,0), flex-grow weight 1, self-alignment unset, both expansion hints false and
  both preferred-size cache entries marked invalid.
\<close>

theorem UI_ctor_defaults:
  "margin (UI_ctor raw) = I4 0 0 0 0 \<and> flex_grow (UI_ctor raw) = 1
   \<and> align_self (UI_ctor raw) = UI_ALIGN_UNSET
   \<and> expand_h (UI_ctor raw) = False \<and> expand_v (UI_ctor raw) = False
   \<and> cached_sr_valid (UI_ctor raw) = (False, False)"
  by (simp add: UI_ctor_def)

text \<open>
  C9. In a tile build (\<^verbatim>\<open>USE_TILE_LOCAL\<close> defined) only \<^verbatim>\<open>set_margin_for_sdl\<close>
  assigns its argument to the margin and \<^verbatim>\<open>set_margin_for_crt\<close> returns the widget
  as it was, every field included; in a console build it is the other way round.
\<close>

theorem set_margin_one_per_build:
  "set_margin_for_sdl True mrg this = this\<lparr>margin := mrg\<rparr>
   \<and> set_margin_for_crt True mrg this = this
   \<and> set_margin_for_crt False mrg this = this\<lparr>margin := mrg\<rparr>
   \<and> set_margin_for_sdl False mrg this = this"
  by (simp add: set_margin_for_crt_def set_margin_for_sdl_def)

text \<open>
  C10. A newly constructed Box is a column (\<^verbatim>\<open>horz\<close> false) with
  \<^verbatim>\<open>justify_items\<close> start and \<^verbatim>\<open>align_items\<close> unset, and has both expansion hints
  true, where the base constructor alone leaves them false.
\<close>

theorem UIBox_ctor_defaults:
  "horz (UIBox_ctor raw) = False
   \<and> justify_items (UIBox_ctor raw) = UI_JUSTIFY_START
   \<and> align_items (UIBox_ctor raw) = UI_ALIGN_UNSET
   \<and> expand_h (UIBox_ctor raw) = True \<and> expand_v (UIBox_ctor raw) = True
   \<and> expand_h (UI_ctor raw) = False \<and> expand_v (UI_ctor raw) = False"
  by (simp add: UIBox_ctor_def UIContainerVec_ctor_def UI_ctor_def)

subsection \<open>Stack\<close>




subsection \<open>Grid: the axis selector of track\_flex\_grow\<close>

text \<open>
  The assertion \<^verbatim>\<open>x == -1 || y == -1\<close> fails when neither selector is \<open>-1\<close>, and
  with one selector \<open>-1\<close> and the other a valid index the call refers to that
  column's or row's weight.
\<close>

lemma track_flex_grow_assert:
  "x \<noteq> - 1 \<Longrightarrow> y \<noteq> - 1 \<Longrightarrow> track_flex_grow init_track_info this x y = Inl AssertFailed"
  by (simp add: track_flex_grow_def ASSERT_def)

lemma track_flex_grow_column:
  "y = - 1 \<Longrightarrow> 0 \<le> sint x \<Longrightarrow> nat (sint x) < length (m_col_info (init_track_info this)) \<Longrightarrow>
   track_flex_grow init_track_info this x y =
     Inr (init_track_info this, Col_flex_grow (nat (sint x)),
          flex_grow_ti (m_col_info (init_track_info this) ! nat (sint x)))"
  by (simp add: track_flex_grow_def ASSERT_def vector_at_int_def vector_at_def Let_def)

lemma track_flex_grow_row:
  "x = - 1 \<Longrightarrow> 0 \<le> sint y \<Longrightarrow> nat (sint y) < length (m_row_info (init_track_info this)) \<Longrightarrow>
   track_flex_grow init_track_info this x y =
     Inr (init_track_info this, Row_flex_grow (nat (sint y)),
          flex_grow_ti (m_row_info (init_track_info this) ! nat (sint y)))"
  by (simp add: track_flex_grow_def ASSERT_def vector_at_int_def vector_at_def Let_def)

text \<open>
  C1. With both selectors \<open>-1\<close> the assertion \<^verbatim>\<open>x == -1 || y == -1\<close> holds, so it
  does not fail; \<^verbatim>\<open>x >= 0\<close> is false and the call reads \<^verbatim>\<open>m_row_info[-1]\<close>, out of
  bounds on every grid and whatever \<^verbatim>\<open>init_track_info\<close> does.
\<close>

theorem track_flex_grow_both_unset:
  "track_flex_grow init_track_info this (- 1) (- 1) = Inl OutOfBounds"
  by (simp add: track_flex_grow_def ASSERT_def vector_at_int_def)

subsection \<open>Grid: the region of a span of tracks\<close>

lemma sint_end_index:
  fixes x w :: cint
  assumes "0 \<le> sint x" "1 \<le> sint w" "sint x + sint w \<le> int n" "n < 2 ^ 31"
  shows "sint (x + w - 1) = sint x + sint w - 1"
proof -
  have b: "sint x + sint w < 2 ^ 31" "- (2 ^ 31) \<le> sint x + sint w"
    using assms by auto
  have "sint (x + w) = signed_take_bit 31 (sint x + sint w)"
    by (simp add: sint_word_ariths)
  also have "\<dots> = sint x + sint w"
    using b by (simp add: signed_take_bit_int_eq_self)
  finally have s: "sint (x + w) = sint x + sint w" .
  have "sint (x + w - 1) = signed_take_bit 31 (sint (x + w) - 1)"
    by (simp add: sint_word_ariths)
  also have "\<dots> = sint x + sint w - 1"
    using b assms(1,2) by (simp add: s signed_take_bit_int_eq_self)
  finally show ?thesis .
qed

text \<open>Under the invariant, the offset \<open>n\<close> tracks further on is the offset plus the sizes passed.\<close>

lemma offset_run:
  "tracks_contiguous ts \<Longrightarrow> i + n < length ts \<Longrightarrow>
   offset (ts ! (i + n)) = offset (ts ! i) + span_size ts i n"
proof (induction n)
  case 0
  then show ?case by (simp add: span_size_def)
next
  case (Suc n)
  then have "offset (ts ! (i + Suc n)) = offset (ts ! (i + n)) + size_ti (ts ! (i + n))"
    by (simp add: tracks_contiguous_def)
  moreover have "span_size ts i (Suc n) = span_size ts i n + size_ti (ts ! (i + n))"
    using Suc.prems by (simp add: span_size_def take_Suc_conv_app_nth)
  ultimately show ?case using Suc by simp
qed

lemma span_extent:
  assumes "tracks_contiguous ts" "0 < n" "i + n \<le> length ts"
  shows "size_ti (ts ! (i + n - 1)) + offset (ts ! (i + n - 1)) - offset (ts ! i) = span_size ts i n"
proof -
  obtain m where n: "n = Suc m" using assms(2) by (cases n) auto
  have "offset (ts ! (i + m)) = offset (ts ! i) + span_size ts i m"
    using assms n by (intro offset_run) auto
  moreover have "span_size ts i (Suc m) = span_size ts i m + size_ti (ts ! (i + m))"
    using assms n by (simp add: span_size_def take_Suc_conv_app_nth)
  ultimately show ?thesis by (simp add: n)
qed

text \<open>One axis of \<open>get_tracks_region\<close>: its two reads are in range.\<close>

lemma axis_reads:
  fixes x w :: cint
  assumes len: "length ts < 2 ^ 31"
    and x: "0 \<le> sint x" and w: "1 \<le> sint w" and fit: "sint x + sint w \<le> int (length ts)"
  shows "vector_at_int ts x = Some (ts ! nat (sint x))
       \<and> vector_at_int ts (x + w - 1) = Some (ts ! (nat (sint x) + nat (sint w) - 1))"
proof -
  let ?i = "nat (sint x)" and ?n = "nat (sint w)"
  have e: "sint (x + w - 1) = sint x + sint w - 1"
    using x w fit len by (rule sint_end_index)
  have n: "0 < ?n" "?i + ?n \<le> length ts" using x w fit by auto
  have j: "nat (sint (x + w - 1)) = ?i + ?n - 1" using e x w by auto
  have "vector_at_int ts x = Some (ts ! ?i)"
    using x n by (simp add: vector_at_int_def vector_at_def)
  moreover have "vector_at_int ts (x + w - 1) = Some (ts ! (?i + ?n - 1))"
    using e x w n j by (simp add: vector_at_int_def vector_at_def)
  ultimately show ?thesis by simp
qed

lemma vector_at_int_map: "vector_at_int (map f v) i = map_option f (vector_at_int v i)"
  by (simp add: vector_at_int_def vector_at_def)

lemma example_grid_contiguous:
  "tracks_contiguous (m_col_info example_grid)" "tracks_contiguous (m_row_info example_grid)"
  by (auto simp: tracks_contiguous_def example_grid_def UI_ctor_def less_Suc_eq nth_Cons')

text \<open>
  C3. For a child at column \<open>x\<close> spanning \<open>w \<ge> 1\<close> columns and at row \<open>y\<close>
  spanning \<open>h \<ge> 1\<close> rows, all within the tracks (whose number fits an \<^verbatim>\<open>int\<close>),
  \<^verbatim>\<open>get_tracks_region\<close> returns a region that starts at the offsets of column \<open>x\<close>
  and row \<open>y\<close>. If the column tracks are contiguous its width is the sum of the sizes
  of columns \<open>x\<close> to \<open>x+w-1\<close>, and if the row tracks are contiguous its height is the
  sum of the sizes of rows \<open>y\<close> to \<open>y+h-1\<close>, both in the arithmetic of \<^verbatim>\<open>int\<close>. The
  flex weights play no part: replacing every track's weight by any other leaves the
  result as it is.
\<close>

theorem get_tracks_region_span:
  assumes "length (m_col_info this) < 2 ^ 31" and "length (m_row_info this) < 2 ^ 31"
    and "0 \<le> sint x" and "1 \<le> sint w" and "sint x + sint w \<le> int (length (m_col_info this))"
    and "0 \<le> sint y" and "1 \<le> sint h" and "sint y + sint h \<le> int (length (m_row_info this))"
  shows "(\<exists>width height.
            get_tracks_region this x y w h =
              Some (I4 (offset (m_col_info this ! nat (sint x)))
                       (offset (m_row_info this ! nat (sint y))) width height)
            \<and> (tracks_contiguous (m_col_info this) \<longrightarrow>
                 width = span_size (m_col_info this) (nat (sint x)) (nat (sint w)))
            \<and> (tracks_contiguous (m_row_info this) \<longrightarrow>
                 height = span_size (m_row_info this) (nat (sint y)) (nat (sint h))))
         \<and> get_tracks_region
             (this\<lparr>m_col_info := map (\<lambda>t. t\<lparr>flex_grow_ti := fc t\<rparr>) (m_col_info this),
                   m_row_info := map (\<lambda>t. t\<lparr>flex_grow_ti := fr t\<rparr>) (m_row_info this)\<rparr>) x y w h
           = get_tracks_region this x y w h"
proof
  let ?cs = "m_col_info this" and ?rs = "m_row_info this"
  let ?i = "nat (sint x)" and ?n = "nat (sint w)" and ?j = "nat (sint y)" and ?m = "nat (sint h)"
  let ?width = "size_ti (?cs ! (?i + ?n - 1)) + offset (?cs ! (?i + ?n - 1)) - offset (?cs ! ?i)"
  let ?height = "size_ti (?rs ! (?j + ?m - 1)) + offset (?rs ! (?j + ?m - 1)) - offset (?rs ! ?j)"
  have cols: "vector_at_int ?cs x = Some (?cs ! ?i)"
      "vector_at_int ?cs (x + w - 1) = Some (?cs ! (?i + ?n - 1))"
    using axis_reads [OF assms(1) assms(3) assms(4) assms(5)] by simp_all
  have rows: "vector_at_int ?rs y = Some (?rs ! ?j)"
      "vector_at_int ?rs (y + h - 1) = Some (?rs ! (?j + ?m - 1))"
    using axis_reads [OF assms(2) assms(6) assms(7) assms(8)] by simp_all
  have r: "get_tracks_region this x y w h =
      Some (I4 (offset (?cs ! ?i)) (offset (?rs ! ?j)) ?width ?height)"
    using cols rows by (simp add: get_tracks_region_def)
  have wd: "?width = span_size ?cs ?i ?n" if "tracks_contiguous ?cs"
    using that assms(3,4,5) by (intro span_extent) auto
  have ht: "?height = span_size ?rs ?j ?m" if "tracks_contiguous ?rs"
    using that assms(6,7,8) by (intro span_extent) auto
  show "\<exists>width height.
            get_tracks_region this x y w h =
              Some (I4 (offset (m_col_info this ! nat (sint x)))
                       (offset (m_row_info this ! nat (sint y))) width height)
            \<and> (tracks_contiguous (m_col_info this) \<longrightarrow>
                 width = span_size (m_col_info this) (nat (sint x)) (nat (sint w)))
            \<and> (tracks_contiguous (m_row_info this) \<longrightarrow>
                 height = span_size (m_row_info this) (nat (sint y)) (nat (sint h)))"
    using r wd ht by blast
next
  show "get_tracks_region
             (this\<lparr>m_col_info := map (\<lambda>t. t\<lparr>flex_grow_ti := fc t\<rparr>) (m_col_info this),
                   m_row_info := map (\<lambda>t. t\<lparr>flex_grow_ti := fr t\<rparr>) (m_row_info this)\<rparr>) x y w h
           = get_tracks_region this x y w h"
    by (simp add: get_tracks_region_def vector_at_int_map split: option.splits)
qed

theorem get_tracks_region_span_witness:
  "tracks_contiguous (m_col_info example_grid) \<and> tracks_contiguous (m_row_info example_grid)
   \<and> get_tracks_region example_grid 1 0 2 2 = Some (I4 10 0 50 12)"
proof -
  have l: "length (m_col_info example_grid) = 3" "length (m_row_info example_grid) = 2"
    by (simp_all add: example_grid_def UI_ctor_def)
  have v: "offset (m_col_info example_grid ! Suc 0) = 10"
      "offset (m_row_info example_grid ! 0) = 0"
      "span_size (m_col_info example_grid) (Suc 0) 2 = 50"
      "span_size (m_row_info example_grid) 0 2 = 12"
    by (simp_all add: span_size_def example_grid_def UI_ctor_def)
  have "get_tracks_region example_grid 1 0 2 2 = Some (I4 10 0 50 12)"
    using get_tracks_region_span [of example_grid 1 2 0 2 "\<lambda>t. 7" "\<lambda>t. 7"]
      example_grid_contiguous
    by (auto simp add: l v)
  then show ?thesis
    using example_grid_contiguous by simp
qed

subsection \<open>Slot: the multimap\<close>

lemma set_multimap_insert: "set (multimap_insert p m) = insert p (set m)"
  by (induction m) auto

lemma multimap_insert_inv: "multimap_inv m \<Longrightarrow> multimap_inv (multimap_insert p m)"
  unfolding multimap_inv_def
  by (induction m) (auto simp: set_multimap_insert)

text \<open>While the keys ascend, the range of a key holds exactly the entries of that key.\<close>

lemma equal_range_filter:
  "multimap_inv m \<Longrightarrow> equal_range m k = filter (\<lambda>p. fst p = k) m"
  unfolding multimap_inv_def
proof (induction m)
  case Nil
  then show ?case by simp
next
  case (Cons p m)
  show ?case
  proof (cases "k < fst p")
    case True
    then have "\<forall>q \<in> set m. fst q \<noteq> k" using Cons.prems by auto
    then have "filter (\<lambda>p. fst p = k) m = []" by (simp add: filter_empty_conv)
    then show ?thesis using True by simp
  next
    case False
    then show ?thesis using Cons by auto
  qed
qed

lemma multimap_erase_filter:
  "multimap_inv m \<Longrightarrow> multimap_erase m k = filter (\<lambda>p. fst p \<noteq> k) m"
  unfolding multimap_inv_def
proof (induction m)
  case Nil
  then show ?case by simp
next
  case (Cons p m)
  show ?case
  proof (cases "k < fst p")
    case True
    then have "\<forall>q \<in> set m. fst q \<noteq> k" using Cons.prems by auto
    then have "filter (\<lambda>p. fst p \<noteq> k) m = m" by (simp add: filter_id_conv)
    then show ?thesis using True by simp
  next
    case False
    then show ?thesis using Cons by auto
  qed
qed

lemma filter_multimap_insert_other:
  "fst p \<noteq> k \<Longrightarrow> filter (\<lambda>q. fst q = k) (multimap_insert p m) = filter (\<lambda>q. fst q = k) m"
  by (induction m) auto

text \<open>A new entry comes last among the entries of its key.\<close>

lemma filter_multimap_insert_same:
  "multimap_inv m \<Longrightarrow>
   filter (\<lambda>q. fst q = fst p) (multimap_insert p m) = filter (\<lambda>q. fst q = fst p) m @ [p]"
  unfolding multimap_inv_def
proof (induction m)
  case Nil
  then show ?case by simp
next
  case (Cons q m)
  show ?case
  proof (cases "fst p < fst q")
    case True
    then have "\<forall>r \<in> set m. fst r \<noteq> fst p" using Cons.prems by auto
    then have "filter (\<lambda>q. fst q = fst p) m = []" by (simp add: filter_empty_conv)
    then show ?thesis using True by simp
  next
    case False
    then show ?thesis using Cons by auto
  qed
qed

lemma register_all_snoc:
  "register_all (regs @ [r]) = on (register_all regs) (fst r) (snd r)"
  by (simp add: register_all_def)

text \<open>
  After a run of registrations the keys ascend, and the range of a key is the
  subsequence of the registrations made against it.
\<close>

lemma register_all_handlers:
  "multimap_inv (handlers (register_all regs))
   \<and> equal_range (handlers (register_all regs)) k = filter (\<lambda>r. fst r = k) regs"
proof (induction regs rule: rev_induct)
  case Nil
  then show ?case by (simp add: register_all_def multimap_inv_def)
next
  case (snoc r regs)
  let ?m = "handlers (register_all regs)"
  have h: "handlers (register_all (regs @ [r])) = multimap_insert r ?m"
    by (simp add: register_all_snoc on_def)
  have inv: "multimap_inv (multimap_insert r ?m)"
    using snoc by (simp add: multimap_insert_inv)
  have inv0: "multimap_inv ?m" using snoc by simp
  have "equal_range ?m k = filter (\<lambda>r. fst r = k) regs" using snoc by simp
  then have old: "filter (\<lambda>q. fst q = k) ?m = filter (\<lambda>r. fst r = k) regs"
    using equal_range_filter [OF inv0, of k] by simp
  have "filter (\<lambda>q. fst q = k) (multimap_insert r ?m) = filter (\<lambda>r. fst r = k) (regs @ [r])"
  proof (cases "fst r = k")
    case True
    then show ?thesis
      using filter_multimap_insert_same [OF inv0, of r] old by auto
  next
    case False
    then show ?thesis by (simp add: filter_multimap_insert_other old)
  qed
  then show ?case using inv h equal_range_filter [OF inv, of k] by simp
qed

subsection \<open>Slot: emit\<close>

lemma emit_loop_consumed:
  fixes es :: "(addr \<times> ('e, 's) HandlerSig) list"
  assumes "n < length es"
    and "\<forall>i<n. \<not> answer (map snd es) args s i"
    and "answer (map snd es) args s n"
  shows "emit_loop es args s = (True, after_handlers (map snd es) args s (Suc n))"
  using assms
proof (induction es arbitrary: n s)
  case Nil
  then show ?case by simp
next
  case (Cons it rest)
  obtain c s' where f: "snd it args s = (c, s')" by (cases "snd it args s")
  have shift: "\<And>i. after_handlers (map snd (it # rest)) args s (Suc i)
                  = after_handlers (map snd rest) args s' i"
    using f by (simp add: after_handlers_def)
  have ans: "\<And>i. answer (map snd (it # rest)) args s (Suc i) = answer (map snd rest) args s' i"
    using shift by (simp add: answer_def)
  show ?case
  proof (cases n)
    case 0
    then have "c" using Cons.prems(3) f by (simp add: answer_def after_handlers_def)
    then show ?thesis using f 0 by (simp add: after_handlers_def)
  next
    case (Suc k)
    have "\<not> answer (map snd (it # rest)) args s 0" using Cons.prems(2) Suc by simp
    then have nc: "\<not> c" using f by (simp add: answer_def after_handlers_def)
    have "emit_loop rest args s' = (True, after_handlers (map snd rest) args s' (Suc k))"
    proof (rule Cons.IH)
      show "k < length rest" using Cons.prems(1) Suc by simp
      show "\<forall>i<k. \<not> answer (map snd rest) args s' i"
        using Cons.prems(2) Suc ans by auto
      show "answer (map snd rest) args s' k" using Cons.prems(3) Suc ans by simp
    qed
    then show ?thesis using f nc Suc shift by simp
  qed
qed

lemma emit_loop_unconsumed:
  fixes es :: "(addr \<times> ('e, 's) HandlerSig) list"
  assumes "\<forall>i<length es. \<not> answer (map snd es) args s i"
  shows "emit_loop es args s = (False, after_handlers (map snd es) args s (length es))"
  using assms
proof (induction es arbitrary: s)
  case Nil
  then show ?case by (simp add: after_handlers_def)
next
  case (Cons it rest)
  obtain c s' where f: "snd it args s = (c, s')" by (cases "snd it args s")
  have shift: "\<And>i. after_handlers (map snd (it # rest)) args s (Suc i)
                  = after_handlers (map snd rest) args s' i"
    using f by (simp add: after_handlers_def)
  have ans: "\<And>i. answer (map snd (it # rest)) args s (Suc i) = answer (map snd rest) args s' i"
    using shift by (simp add: answer_def)
  have "\<not> answer (map snd (it # rest)) args s 0" using Cons.prems by simp
  then have nc: "\<not> c" using f by (simp add: answer_def after_handlers_def)
  have "emit_loop rest args s' = (False, after_handlers (map snd rest) args s' (length rest))"
  proof (rule Cons.IH)
    show "\<forall>i<length rest. \<not> answer (map snd rest) args s' i"
      using Cons.prems ans by auto
  qed
  then show ?case using f nc shift by simp
qed

text \<open>
  C4. Let \<open>hs\<close> be the handlers registered against the target, in registration order;
  handlers of other targets are not in it. If the handler at position \<open>n\<close> is the
  first to answer true, \<^verbatim>\<open>emit\<close> returns true and leaves the state in which the
  handlers at positions \<open>0\<close> to \<open>n\<close> have each run once, in order, and no other handler
  has run. If none answers true, which includes an empty \<open>hs\<close>, \<^verbatim>\<open>emit\<close> returns
  false and leaves the state in which every handler of \<open>hs\<close> has run once, in order.
\<close>

theorem emit_dispatch:
  fixes regs :: "(addr \<times> ('e, 's) HandlerSig) list" and target :: addr
  defines "hs \<equiv> registered_for regs target"
  shows "(\<forall>n<length hs. (\<forall>i<n. \<not> answer hs args s i) \<and> answer hs args s n \<longrightarrow>
            emit (register_all regs) target args s = (True, after_handlers hs args s (Suc n)))
       \<and> ((\<forall>i<length hs. \<not> answer hs args s i) \<longrightarrow>
            emit (register_all regs) target args s = (False, after_handlers hs args s (length hs)))"
proof -
  let ?es = "filter (\<lambda>r. fst r = target) regs"
  have e: "emit (register_all regs) target args s = emit_loop ?es args s"
    using register_all_handlers [of regs target] by (simp add: emit_def)
  show ?thesis
    unfolding e hs_def registered_for_def
    using emit_loop_consumed [of _ ?es args s] emit_loop_unconsumed [of ?es args s]
    by simp
qed

theorem emit_dispatch_witness:
  "emit (register_all example_regs) 1 () [] = (True, [10, 11])
   \<and> emit (register_all example_regs) 3 () [] = (False, [])"
proof -
  have hs1: "registered_for example_regs 1 =
      [logging_handler 10 False, logging_handler 11 True, logging_handler 12 True]"
    by (simp add: registered_for_def example_regs_def)
  have hs3: "registered_for example_regs 3 = []"
    by (simp add: registered_for_def example_regs_def)
  have a0: "\<not> answer [logging_handler 10 False, logging_handler 11 True, logging_handler 12 True] () [] 0"
    by (simp add: answer_def after_handlers_def logging_handler_def)
  have a1: "answer [logging_handler 10 False, logging_handler 11 True, logging_handler 12 True] () [] 1"
    by (simp add: answer_def after_handlers_def logging_handler_def)
  have st: "after_handlers [logging_handler 10 False, logging_handler 11 True, logging_handler 12 True]
      () [] (Suc 1) = [10, 11]"
    by (simp add: after_handlers_def logging_handler_def)
  have "emit (register_all example_regs) 1 () [] = (True, [10, 11])"
    using emit_dispatch [of example_regs 1 "()" "[]", unfolded hs1, THEN conjunct1, THEN spec, of 1]
      a0 a1 st
    by simp
  moreover have "emit (register_all example_regs) 3 () [] = (False, [])"
    using emit_dispatch [of example_regs 3 "()" "[]", unfolded hs3, THEN conjunct2]
    by (simp add: after_handlers_def)
  ultimately show ?thesis by simp
qed

subsection \<open>Slot: removal when a widget is destroyed\<close>

lemma example_regs_handlers:
  "handlers (register_all example_regs) =
     [(1, logging_handler 10 False), (1, logging_handler 11 True),
      (1, logging_handler 12 True), (2, logging_handler 20 True)]"
  by (simp add: register_all_def example_regs_def on_def)

text \<open>
  C5. Destroying the widget at address \<open>this\<close> leaves in the process-wide registry
  exactly the entries registered under other addresses, each as it was and in the
  same order: the range of \<open>this\<close> is empty afterwards and the range of every other
  address is unchanged.
\<close>

theorem UI_dtor_removes_handlers:
  assumes "multimap_inv (handlers (event sl))"
  shows "handlers (event (UI_dtor this sl)) = filter (\<lambda>r. fst r \<noteq> this) (handlers (event sl))
     \<and> equal_range (handlers (event (UI_dtor this sl))) this = []
     \<and> (\<forall>t. t \<noteq> this \<longrightarrow>
           equal_range (handlers (event (UI_dtor this sl))) t = equal_range (handlers (event sl)) t)
     \<and> multimap_inv (handlers (event (UI_dtor this sl)))"
proof -
  let ?m = "handlers (event sl)" and ?m' = "handlers (event (UI_dtor this sl))"
  have e: "?m' = filter (\<lambda>r. fst r \<noteq> this) ?m"
    using assms by (simp add: UI_dtor_def remove_by_target_def multimap_erase_filter)
  have inv: "multimap_inv ?m'"
    using assms unfolding e multimap_inv_def by (simp add: sorted_filter)
  have "equal_range ?m' this = []"
    using equal_range_filter [OF inv, of this] by (simp add: e)
  moreover have "equal_range ?m' t = equal_range ?m t" if "t \<noteq> this" for t
  proof -
    have "filter (\<lambda>p. fst p = t) (filter (\<lambda>r. fst r \<noteq> this) ?m) = filter (\<lambda>p. fst p = t) ?m"
      using that by (auto intro: filter_cong)
    then show ?thesis
      using equal_range_filter [OF inv, of t] equal_range_filter [OF assms, of t] by (simp add: e)
  qed
  ultimately show ?thesis using e inv by simp
qed

theorem UI_dtor_removes_handlers_witness:
  "multimap_inv (handlers (event \<lparr>event = register_all example_regs\<rparr>))
   \<and> handlers (event (UI_dtor 1 \<lparr>event = register_all example_regs\<rparr>))
       = [(2, logging_handler 20 True)]"
proof -
  have inv: "multimap_inv (handlers (event \<lparr>event = register_all example_regs\<rparr>))"
    by (simp add: example_regs_handlers multimap_inv_def)
  show ?thesis
    using UI_dtor_removes_handlers [OF inv, of 1] inv
    by (simp add: example_regs_handlers)
qed

end
